theory Spec2Isabelle
  imports
    Complex_Main
    "HOL-Library.Sublist"
    "HOL-Library.Product_Lexorder"
    "HOL-Library.List_Lexorder"
    "HOL-Library.Char_ord"
    "HOL-Library.Log_Nat"
begin

section \<open>Data model of food_tracker.py\<close>

text \<open>
  A calendar date is the triple (year, month, day). The database stores a date as its
  ISO text \<^verbatim>\<open>YYYY-MM-DD\<close> and compares dates as text; for four-digit years that is the
  lexicographic order of the triple, which is the order of the product type here.
\<close>

type_synonym date = "nat \<times> nat \<times> nat"

definition year :: "date \<Rightarrow> nat" where
  "year d = fst d"

definition month :: "date \<Rightarrow> nat" where
  "month d = fst (snd d)"

definition day :: "date \<Rightarrow> nat" where
  "day d = snd (snd d)"

text \<open>
  One row of the table \<^verbatim>\<open>expenses (id, date, meal, amount)\<close>. An amount is the real
  number that the stored double stands for.
\<close>

record row =
  id_col :: nat
  date :: date
  meal :: string
  amount :: real

text \<open>
  The database file: the rows of \<^verbatim>\<open>expenses\<close> in table order, and the
  counter that \<^verbatim>\<open>AUTOINCREMENT\<close> keeps (the largest id ever handed out).
\<close>

record db =
  expenses :: "row list"
  seq :: nat

section \<open>Strings\<close>

text \<open>
  \<^verbatim>\<open>str.lower\<close> and the case folding of SQLite's \<^verbatim>\<open>LIKE\<close>, on ASCII: the letters
  A to Z move down by 32, every other character stays. A string is a list of bytes here;
  on a string of ASCII characters this is what \<^verbatim>\<open>str.lower\<close> does. Python also lowers
  letters outside ASCII, which this function leaves alone, as \<^verbatim>\<open>LIKE\<close> does; a lemma
  that depends on what \<open>lower\<close> returns for a string that is not a literal assumes
  \<open>is_ascii\<close> of it.
\<close>

definition lower_char :: "char \<Rightarrow> char" where
  "lower_char c =
     (let n = (of_char c :: nat)
      in if 65 \<le> n \<and> n \<le> 90 then char_of (n + 32) else c)"

definition lower :: "string \<Rightarrow> string" where
  "lower s = map lower_char s"

text \<open>A string of ASCII characters: every byte is below 128.\<close>

definition is_ascii :: "string \<Rightarrow> bool" where
  "is_ascii s = list_all (\<lambda>c. (of_char c :: nat) < 128) s"

text \<open>Python's \<^verbatim>\<open>word in s\<close> on strings: \<open>word\<close> occurs in \<open>s\<close> as a contiguous block.\<close>

fun str_in :: "string \<Rightarrow> string \<Rightarrow> bool" where
  "str_in word [] = (word = [])"
| "str_in word (c # cs) = (prefix word (c # cs) \<or> str_in word cs)"

text \<open>
  The SQL condition \<^verbatim>\<open>meal LIKE 'Other%' OR meal = 'Other'\<close>. \<^verbatim>\<open>LIKE\<close> ignores
  the case of ASCII letters, \<^verbatim>\<open>=\<close> does not.
\<close>

definition like_Other :: "string \<Rightarrow> bool" where
  "like_Other m = (lower (take 5 m) = ''other'')"

definition other_cond :: "string \<Rightarrow> bool" where
  "other_cond m = (like_Other m \<or> m = ''Other'')"

section \<open>Monthly Summary: categorize_meal\<close>

definition categorize_meal :: "string \<Rightarrow> string" where
  "categorize_meal m =
     (let meal_lower = lower m
      in if list_ex (\<lambda>word. str_in word meal_lower) [''breakfast'', ''morning'']
           then ''Breakfast''
         else if list_ex (\<lambda>word. str_in word meal_lower) [''lunch'', ''afternoon'']
           then ''Lunch''
         else if list_ex (\<lambda>word. str_in word meal_lower) [''dinner'', ''evening'']
           then ''Dinner''
         else ''Other'')"

section \<open>SQL statements on the table\<close>

text \<open>\<^verbatim>\<open>DELETE FROM expenses WHERE cond\<close>: the rows that satisfy \<open>cond\<close> go, the others stay in place.\<close>

definition sql_delete :: "(row \<Rightarrow> bool) \<Rightarrow> db \<Rightarrow> db" where
  "sql_delete cond d = d\<lparr>expenses := filter (\<lambda>r. \<not> cond r) (expenses d)\<rparr>"

text \<open>
  \<^verbatim>\<open>INSERT INTO expenses (date, meal, amount) VALUES (?, ?, ?)\<close>: the new id is one more
  than the largest id the table has ever held.
\<close>

definition next_id :: "db \<Rightarrow> nat" where
  "next_id d = Suc (fold max (map id_col (expenses d)) (seq d))"

definition sql_insert :: "date \<Rightarrow> string \<Rightarrow> real \<Rightarrow> db \<Rightarrow> db" where
  "sql_insert dt m a d =
     \<lparr>expenses = expenses d @ [\<lparr>id_col = next_id d, date = dt, meal = m, amount = a\<rparr>],
      seq = next_id d\<rparr>"

text \<open>\<^verbatim>\<open>SELECT amount FROM expenses WHERE cond\<close>, in table order.\<close>

definition select_amount :: "(row \<Rightarrow> bool) \<Rightarrow> db \<Rightarrow> real list" where
  "select_amount cond d = map amount (filter cond (expenses d))"

text \<open>\<^verbatim>\<open>SELECT amount FROM expenses WHERE cond ORDER BY id DESC LIMIT 1\<close>.\<close>

definition select_amount_latest :: "(row \<Rightarrow> bool) \<Rightarrow> db \<Rightarrow> real list" where
  "select_amount_latest cond d =
     map amount (take 1 (rev (sort_key id_col (filter cond (expenses d)))))"

section \<open>Daily Entry\<close>

text \<open>The dictionary \<^verbatim>\<open>old_names\<close> of \<^verbatim>\<open>get_existing_amount\<close> and \<^verbatim>\<open>delete_entry\<close>.\<close>

definition old_names :: "(string \<times> string) list" where
  "old_names = [(''Morning'', ''Breakfast''), (''Afternoon'', ''Lunch''), (''Evening'', ''Dinner'')]"

text \<open>The dictionary \<^verbatim>\<open>old_names\<close> of \<^verbatim>\<open>save_entry\<close>, which has keys and values the other way round.\<close>

definition old_names_save :: "(string \<times> string) list" where
  "old_names_save = [(''Breakfast'', ''Morning''), (''Lunch'', ''Afternoon''), (''Dinner'', ''Evening'')]"

text \<open>\<open>df['amount'].iloc[0] if not df.empty else None\<close>\<close>

definition first_amount :: "real list \<Rightarrow> real option" where
  "first_amount df = (case df of [] \<Rightarrow> None | a # _ \<Rightarrow> Some a)"

definition get_existing_amount :: "date \<Rightarrow> string \<Rightarrow> db \<Rightarrow> real option" where
  "get_existing_amount selected_date meal_name d =
     first_amount
       (if meal_name = ''Other'' then
          select_amount_latest (\<lambda>r. date r = selected_date \<and> other_cond (meal r)) d
        else
          (let df = select_amount (\<lambda>r. date r = selected_date \<and> meal r = meal_name) d
           in case map_of old_names meal_name of
                Some other_name \<Rightarrow>
                  if df = [] then
                    select_amount (\<lambda>r. date r = selected_date \<and> meal r = other_name) d
                  else df
              | None \<Rightarrow> df))"

definition delete_entry :: "date \<Rightarrow> string \<Rightarrow> db \<Rightarrow> db" where
  "delete_entry selected_date meal_name d =
     (if meal_name = ''Other'' then
        sql_delete (\<lambda>r. date r = selected_date \<and> other_cond (meal r)) d
      else
        (let meal_name' = (case map_of old_names meal_name of
                             Some new_name \<Rightarrow> new_name
                           | None \<Rightarrow> meal_name)
         in sql_delete (\<lambda>r. date r = selected_date \<and> meal r = meal_name') d))"

text \<open>
  The loop of \<^verbatim>\<open>save_entry\<close> over \<^verbatim>\<open>old_names.items()\<close>: the key of the first item
  whose value is \<open>meal_name\<close>; \<open>meal_name\<close> itself when there is none.
\<close>

fun rename_loop :: "(string \<times> string) list \<Rightarrow> string \<Rightarrow> string" where
  "rename_loop [] meal_name = meal_name"
| "rename_loop ((k, v) # items) meal_name =
     (if v = meal_name then k else rename_loop items meal_name)"

text \<open>\<open>f"{meal_name}: {desc}" if desc and meal_name == "Other" else meal_name\<close>\<close>

definition full_meal :: "string \<Rightarrow> string \<Rightarrow> string" where
  "full_meal meal_name desc =
     (if desc \<noteq> [] \<and> meal_name = ''Other'' then meal_name @ '': '' @ desc else meal_name)"

definition save_entry :: "date \<Rightarrow> string \<Rightarrow> real \<Rightarrow> string \<Rightarrow> db \<Rightarrow> db" where
  "save_entry selected_date meal_name a desc d =
     (let meal_name' =
            (if meal_name = ''Other'' then meal_name
             else if meal_name \<in> set (map snd old_names_save)
               then rename_loop old_names_save meal_name
             else meal_name);
          d1 =
            (if meal_name = ''Other'' then
               sql_delete (\<lambda>r. date r = selected_date \<and> other_cond (meal r)) d
             else sql_delete (\<lambda>r. date r = selected_date \<and> meal r = meal_name') d)
      in if a > 0 then sql_insert selected_date (full_meal meal_name' desc) a d1 else d1)"

text \<open>The button \<^verbatim>\<open>Clear All Today's Entries\<close>.\<close>

definition clear_all_today :: "date \<Rightarrow> db \<Rightarrow> db" where
  "clear_all_today selected_date d = sql_delete (\<lambda>r. date r = selected_date) d"

text \<open>
  The amount read from a text input. \<open>pyfloat\<close> is Python's \<^verbatim>\<open>float\<close> on strings,
  \<open>None\<close> where it raises \<^verbatim>\<open>ValueError\<close>; \<^verbatim>\<open>str.strip\<close> removes ASCII white space
  at both ends.
\<close>

definition is_space :: "char \<Rightarrow> bool" where
  "is_space c = (let n = (of_char c :: nat) in (9 \<le> n \<and> n \<le> 13) \<or> (28 \<le> n \<and> n \<le> 32))"

definition strip :: "string \<Rightarrow> string" where
  "strip s = rev (dropWhile is_space (rev (dropWhile is_space s)))"

definition parse_amount :: "(string \<Rightarrow> real option) \<Rightarrow> string \<Rightarrow> real" where
  "parse_amount pyfloat inp =
     (if strip inp \<noteq> [] then (case pyfloat inp of Some x \<Rightarrow> x | None \<Rightarrow> 0) else 0)"

section \<open>Monthly Summary: the date range\<close>

definition is_leap :: "nat \<Rightarrow> bool" where
  "is_leap y = (y mod 4 = 0 \<and> (y mod 100 \<noteq> 0 \<or> y mod 400 = 0))"

definition days_in_month :: "nat \<Rightarrow> nat \<Rightarrow> nat" where
  "days_in_month y m =
     (if m = 2 then (if is_leap y then 29 else 28)
      else if m = 4 \<or> m = 6 \<or> m = 9 \<or> m = 11 then 30 else 31)"

text \<open>A value of Python's \<^verbatim>\<open>datetime.date\<close>: years 1 to 9999.\<close>

definition valid_date :: "date \<Rightarrow> bool" where
  "valid_date d =
     (1 \<le> year d \<and> year d \<le> 9999 \<and> 1 \<le> month d \<and> month d \<le> 12 \<and>
      1 \<le> day d \<and> day d \<le> days_in_month (year d) (month d))"

text \<open>\<open>d.replace(day=1)\<close>\<close>

definition replace_day1 :: "date \<Rightarrow> date" where
  "replace_day1 d = (year d, month d, 1)"

text \<open>
  \<open>d + relativedelta(months=1)\<close>: the month moves on by one, the day is cut to the
  length of the new month, and a year beyond 9999 raises (\<open>None\<close>).
\<close>

definition add_one_month :: "date \<Rightarrow> date option" where
  "add_one_month d =
     (let y = (if month d + 1 > 12 then year d + 1 else year d);
          m = (if month d + 1 > 12 then month d + 1 - 12 else month d + 1);
          dd = min (days_in_month y m) (day d)
      in if y > 9999 then None else Some (y, m, dd))"

text \<open>\<open>d - timedelta(days=1)\<close>: raises (\<open>None\<close>) before the first day of year 1.\<close>

definition minus_one_day :: "date \<Rightarrow> date option" where
  "minus_one_day d =
     (if day d > 1 then Some (year d, month d, day d - 1)
      else if month d > 1 then
        Some (year d, month d - 1, days_in_month (year d) (month d - 1))
      else if year d > 1 then Some (year d - 1, 12, 31)
      else None)"

text \<open>The pair \<open>(month_start, month_end)\<close> computed from the selected date.\<close>

definition month_range :: "date \<Rightarrow> (date \<times> date) option" where
  "month_range selected_month =
     (let month_start = replace_day1 selected_month
      in case add_one_month month_start of
           None \<Rightarrow> None
         | Some next_month \<Rightarrow>
             (case minus_one_day next_month of
                None \<Rightarrow> None
              | Some month_end \<Rightarrow> Some (month_start, month_end)))"

text \<open>\<^verbatim>\<open>SELECT date, meal, amount FROM expenses WHERE date BETWEEN ? AND ? ORDER BY date\<close>\<close>

definition select_between :: "date \<Rightarrow> date \<Rightarrow> db \<Rightarrow> row list" where
  "select_between lo hi d = sort_key date (filter (\<lambda>r. lo \<le> date r \<and> date r \<le> hi) (expenses d))"

definition df_month :: "date \<Rightarrow> db \<Rightarrow> row list option" where
  "df_month selected_month d =
     (case month_range selected_month of
        None \<Rightarrow> None
      | Some (month_start, month_end) \<Rightarrow> Some (select_between month_start month_end d))"

section \<open>Floating-point sums\<close>

text \<open>
  The column \<^verbatim>\<open>amount REAL\<close> holds IEEE-754 doubles, and pandas adds doubles. A double
  is modelled by the real number it stands for; \<open>round_double\<close> is rounding to the nearest
  double, ties to the even mantissa, for results in the normal range (no overflow, no
  subnormal numbers). \<open>pow2 e\<close> is \<open>2\<close> to the power \<open>e\<close>, and \<open>log2_floor x\<close> the
  exponent of \<open>x\<close>: the integer \<open>k\<close> with \<open>2 ^ k \<le> x < 2 ^ (k + 1)\<close>, for positive \<open>x\<close>.
\<close>

definition pow2 :: "int \<Rightarrow> real" where
  "pow2 e = (if 0 \<le> e then 2 ^ nat e else 1 / 2 ^ nat (- e))"

definition log2_floor :: "real \<Rightarrow> int" where
  "log2_floor x = (if 1 \<le> x then bitlen \<lfloor>x\<rfloor> - 1 else - bitlen (\<lceil>1 / x\<rceil> - 1))"

definition round_double :: "real \<Rightarrow> real" where
  "round_double x =
     (if x = 0 then 0
      else let e = log2_floor \<bar>x\<bar> - 52;
               t = x / pow2 e;
               f = \<lfloor>t\<rfloor>;
               m = (if t - of_int f < 1 / 2 then f
                    else if 1 / 2 < t - of_int f then f + 1
                    else if even f then f else f + 1)
           in of_int m * pow2 e)"



section \<open>Monthly Summary: the aggregations\<close>





section \<open>Categories of the entry form\<close>

text \<open>
  The entry form has the four categories Breakfast, Lunch, Dinner and Other. A label of
  the table belongs to a category when it is the category's name, an old name that
  \<open>old_names\<close> maps to it, or, for Other, a label that the condition on Other rows
  accepts.
\<close>

definition in_category :: "string \<Rightarrow> string \<Rightarrow> bool" where
  "in_category m label =
     (label = m \<or> map_of old_names label = Some m \<or> (m = ''Other'' \<and> other_cond label))"

section \<open>Properties of categorize_meal\<close>

lemma categorize_meal_range:
  "categorize_meal m \<in> {''Breakfast'', ''Lunch'', ''Dinner'', ''Other''}"
proof -
  have "(if a then ''Breakfast'' else if b then ''Lunch'' else if c then ''Dinner'' else ''Other'')
          \<in> {''Breakfast'', ''Lunch'', ''Dinner'', ''Other''}" for a b c
    by (cases a; cases b; cases c) simp_all
  then show ?thesis
    unfolding categorize_meal_def Let_def .
qed

lemma categorize_meal_legacy:
  "categorize_meal ''Morning'' = ''Breakfast''"
  "categorize_meal ''Afternoon'' = ''Lunch''"
  "categorize_meal ''Evening'' = ''Dinner''"
  by code_simp+

lemma categorize_meal_current:
  "categorize_meal ''Breakfast'' = ''Breakfast''"
  "categorize_meal ''Lunch'' = ''Lunch''"
  "categorize_meal ''Dinner'' = ''Dinner''"
  "categorize_meal ''Other'' = ''Other''"
  by code_simp+

lemma categorize_meal_no_keyword:
  "\<not> list_ex (\<lambda>word. str_in word (lower m))
       [''breakfast'', ''morning'', ''lunch'', ''afternoon'', ''dinner'', ''evening'']
   \<Longrightarrow> categorize_meal m = ''Other''"
  by (simp add: categorize_meal_def)

text \<open>
  C2. \<open>categorize_meal\<close> returns one of the four category names for every string;
  the legacy labels Morning, Afternoon and Evening go to Breakfast, Lunch and Dinner; the
  four current labels go to themselves; and a string whose lower-case form contains none
  of the six keywords goes to Other.
\<close>

theorem categorize_meal_four_categories:
  "categorize_meal m \<in> {''Breakfast'', ''Lunch'', ''Dinner'', ''Other''}
   \<and> categorize_meal ''Morning'' = ''Breakfast''
   \<and> categorize_meal ''Afternoon'' = ''Lunch''
   \<and> categorize_meal ''Evening'' = ''Dinner''
   \<and> categorize_meal ''Breakfast'' = ''Breakfast''
   \<and> categorize_meal ''Lunch'' = ''Lunch''
   \<and> categorize_meal ''Dinner'' = ''Dinner''
   \<and> categorize_meal ''Other'' = ''Other''
   \<and> (\<not> list_ex (\<lambda>word. str_in word (lower m))
           [''breakfast'', ''morning'', ''lunch'', ''afternoon'', ''dinner'', ''evening'']
        \<longrightarrow> categorize_meal m = ''Other'')"
  using categorize_meal_range [of m] categorize_meal_legacy categorize_meal_current
    categorize_meal_no_keyword [of m]
  by blast

theorem categorize_meal_four_categories_witness:
  "\<not> list_ex (\<lambda>word. str_in word (lower ''Other: snack''))
       [''breakfast'', ''morning'', ''lunch'', ''afternoon'', ''dinner'', ''evening'']
   \<and> categorize_meal ''Other: snack'' = ''Other''"
proof -
  have h: "\<not> list_ex (\<lambda>word. str_in word (lower ''Other: snack''))
       [''breakfast'', ''morning'', ''lunch'', ''afternoon'', ''dinner'', ''evening'']"
    by code_simp
  with categorize_meal_four_categories [of "''Other: snack''"] show ?thesis
    by blast
qed

section \<open>Saving an entry and counting it in the monthly breakdown\<close>

lemma lower_append: "lower (s @ t) = lower s @ lower t"
  by (simp add: lower_def)

lemma lower_Other_colon: "lower ''Other: '' = ''other: ''"
  by code_simp

lemma str_in_after_other:
  "w \<in> {''breakfast'', ''morning'', ''lunch'', ''afternoon'', ''dinner'', ''evening''} \<Longrightarrow>
   str_in w (''other: '' @ s) = str_in w s"
  by auto

text \<open>
  What does hold of the label that \<open>save_entry\<close> stores: it is counted under the
  category it was saved as whenever the note is a string of ASCII characters whose
  lower-case form contains none of the six keywords.
\<close>

lemma categorize_full_meal_plain_note:
  assumes "m \<in> {''Breakfast'', ''Lunch'', ''Dinner'', ''Other''}"
    and "is_ascii desc"
    and "\<not> list_ex (\<lambda>word. str_in word (lower desc))
           [''breakfast'', ''morning'', ''lunch'', ''afternoon'', ''dinner'', ''evening'']"
  shows "categorize_meal (full_meal m desc) = m"
proof (cases "m = ''Other'' \<and> desc \<noteq> []")
  case True
  have "lower (''Other: '' @ desc) = ''other: '' @ lower desc"
    by (simp only: lower_append lower_Other_colon)
  with True assms(3) have "\<not> list_ex (\<lambda>word. str_in word (lower (full_meal m desc)))
           [''breakfast'', ''morning'', ''lunch'', ''afternoon'', ''dinner'', ''evening'']"
    by (simp add: full_meal_def str_in_after_other)
  then have "categorize_meal (full_meal m desc) = ''Other''"
    by (rule categorize_meal_no_keyword)
  with True show ?thesis by simp
next
  case False
  then have "full_meal m desc = m"
    by (auto simp: full_meal_def)
  with assms(1) show ?thesis
    using categorize_meal_current by auto
qed

text \<open>
  C3. The claim is that the label stored for Other with any note is counted under Other.
  With the note \<open>dinner snack\<close> the stored label is \<open>Other: dinner snack\<close>, and
  \<open>categorize_meal\<close> puts it under Dinner.
\<close>

theorem other_note_with_keyword_counted_as_dinner:
  "full_meal ''Other'' ''dinner snack'' = ''Other: dinner snack''
   \<and> categorize_meal (full_meal ''Other'' ''dinner snack'') = ''Dinner''"
  by code_simp

section \<open>Rounding to a double\<close>

lemma pow2_nonpos: "e \<le> 0 \<Longrightarrow> pow2 e = 1 / 2 ^ nat (- e)"
  by (cases "e = 0") (simp_all add: pow2_def)

lemma pow2_pos: "0 < pow2 e"
  by (simp add: pow2_def)

lemma pow2_powr: "pow2 e = 2 powr (of_int e)"
proof (cases "0 \<le> e")
  case True
  then have "real_of_int e = real (nat e)"
    by simp
  then have "2 powr (real_of_int e) = 2 ^ nat e"
    by (simp only: powr_realpow zero_less_numeral)
  with True show ?thesis by (simp add: pow2_def)
next
  case False
  then have "real_of_int e = - real (nat (- e))"
    by simp
  then have "2 powr (real_of_int e) = 1 / 2 ^ nat (- e)"
    by (simp only: powr_minus powr_realpow zero_less_numeral) (simp add: field_simps)
  with False show ?thesis by (simp add: pow2_def)
qed

text \<open>\<open>log2_floor\<close> is the exponent of a positive number.\<close>

lemma log2_floor_bounds:
  assumes "0 < x"
  shows "pow2 (log2_floor x) \<le> x" and "x < pow2 (log2_floor x + 1)"
proof -
  have "pow2 (log2_floor x) \<le> x \<and> x < pow2 (log2_floor x + 1)"
  proof (cases "1 \<le> x")
    case True
    define n where "n = \<lfloor>x\<rfloor>"
    define b where "b = bitlen n"
    from True have n: "0 < n" unfolding n_def by simp
    from bitlen_bounds [OF n] have lo: "2 ^ nat (b - 1) \<le> n" and hi: "n < 2 ^ nat b"
      unfolding b_def by simp_all
    from n have b: "1 \<le> b"
      unfolding b_def using bitlen_nonneg [of n] bitlen_eq_zero_iff [of n] by linarith
    from True have l: "log2_floor x = b - 1"
      by (simp add: log2_floor_def n_def b_def)
    have "real_of_int (2 ^ nat (b - 1)) \<le> real_of_int n"
      using lo by (simp only: of_int_le_iff)
    also have "\<dots> \<le> x"
      unfolding n_def by simp
    finally have 1: "pow2 (b - 1) \<le> x"
      using b by (simp add: pow2_def)
    from hi have "n + 1 \<le> 2 ^ nat b" by simp
    then have "real_of_int (n + 1) \<le> real_of_int (2 ^ nat b)"
      by (simp only: of_int_le_iff)
    moreover have "x < real_of_int (n + 1)"
      unfolding n_def by linarith
    ultimately have 2: "x < pow2 b"
      using b by (simp add: pow2_def)
    from 1 2 show ?thesis unfolding l by simp
  next
    case False
    define y where "y = 1 / x"
    define c where "c = \<lceil>y\<rceil>"
    define b where "b = bitlen (c - 1)"
    from False assms have y1: "1 < y"
      unfolding y_def by simp
    then have c: "0 < c - 1"
      unfolding c_def by linarith
    from bitlen_bounds [OF c] have lo: "2 ^ nat (b - 1) \<le> c - 1" and hi: "c - 1 < 2 ^ nat b"
      unfolding b_def by simp_all
    from c have b: "1 \<le> b"
      unfolding b_def using bitlen_nonneg [of "c - 1"] bitlen_eq_zero_iff [of "c - 1"] by linarith
    from False have l: "log2_floor x = - b"
      by (simp add: log2_floor_def y_def c_def b_def)
    from hi have "c \<le> 2 ^ nat b" by simp
    then have "real_of_int c \<le> real_of_int (2 ^ nat b)"
      by (simp only: of_int_le_iff)
    then have "real_of_int c \<le> 2 ^ nat b"
      by simp
    moreover have "y \<le> real_of_int c"
      unfolding c_def by simp
    ultimately have "y \<le> 2 ^ nat b"
      by (rule order_trans [rotated])
    then have "1 / 2 ^ nat b \<le> x"
      using assms unfolding y_def by (simp add: field_simps)
    moreover from b have "pow2 (- b) = 1 / 2 ^ nat b"
      by (simp add: pow2_nonpos)
    ultimately have 1: "pow2 (- b) \<le> x"
      by simp
    have "real_of_int (2 ^ nat (b - 1)) \<le> real_of_int (c - 1)"
      using lo by (simp only: of_int_le_iff)
    moreover have "real_of_int (c - 1) < y"
      unfolding c_def by linarith
    ultimately have "2 ^ nat (b - 1) < y"
      by simp
    then have "x < 1 / 2 ^ nat (b - 1)"
      using assms unfolding y_def by (simp add: field_simps)
    moreover from b have "pow2 (- b + 1) = 1 / 2 ^ nat (b - 1)"
      using pow2_nonpos [of "- b + 1"] by simp
    ultimately have 2: "x < pow2 (- b + 1)"
      by simp
    from 1 2 show ?thesis unfolding l by simp
  qed
  then show "pow2 (log2_floor x) \<le> x" and "x < pow2 (log2_floor x + 1)"
    by simp_all
qed

text \<open>
  \<open>round_double x\<close> is a whole multiple of the spacing \<open>2 ^ (e - 52)\<close> of the doubles
  around \<open>x\<close>, where \<open>e\<close> is the exponent of \<open>x\<close>, and lies within half that spacing of \<open>x\<close>.
\<close>

lemma round_double_nearest:
  assumes "x \<noteq> 0"
  shows "\<exists>m. round_double x = of_int m * pow2 (log2_floor \<bar>x\<bar> - 52)
           \<and> \<bar>round_double x - x\<bar> \<le> pow2 (log2_floor \<bar>x\<bar> - 52) / 2"
proof -
  define e where "e = log2_floor \<bar>x\<bar> - 52"
  define t where "t = x / pow2 e"
  define f where "f = \<lfloor>t\<rfloor>"
  define m where "m = (if t - of_int f < 1 / 2 then f
                    else if 1 / 2 < t - of_int f then f + 1
                    else if even f then f else f + 1)"
  have r: "round_double x = of_int m * pow2 e"
    using assms by (simp add: round_double_def Let_def e_def t_def f_def m_def)
  have "0 \<le> t - of_int f" "t - of_int f < 1"
    unfolding f_def by linarith+
  then have near: "\<bar>of_int m - t\<bar> \<le> 1 / 2"
    unfolding m_def by (auto simp: abs_if)
  have "round_double x - x = (of_int m - t) * pow2 e"
    using pow2_pos [of e] by (simp add: r t_def field_simps)
  then have "\<bar>round_double x - x\<bar> = \<bar>of_int m - t\<bar> * pow2 e"
    using pow2_pos [of e] by (simp add: abs_mult)
  also have "\<dots> \<le> 1 / 2 * pow2 e"
    using near pow2_pos [of e] by (intro mult_right_mono) simp_all
  finally have "\<bar>round_double x - x\<bar> \<le> pow2 e / 2"
    by simp
  with r show ?thesis
    unfolding e_def by blast
qed

lemma round_double_examples:
  "round_double (1 / 10) = 3602879701896397 / 36028797018963968"
  "round_double (2 / 10) = 3602879701896397 / 18014398509481984"
  "round_double (3 / 10) = 5404319552844595 / 18014398509481984"
  "round_double (2 ^ 53 + 1) = 2 ^ 53"
  "round_double (2 ^ 53 + 3) = 2 ^ 53 + 4"
  by code_simp+

subsection \<open>Whole numbers are added exactly\<close>






section \<open>The totals of the Monthly Summary\<close>
















section \<open>The date range of the Monthly Summary\<close>

lemmas date_parts = year_def month_def day_def

lemma days_in_month_pos: "1 \<le> days_in_month y m"
  by (simp add: days_in_month_def)

lemma month_range_value:
  assumes "valid_date s" and "\<not> (year s = 9999 \<and> month s = 12)"
  shows "month_range s =
           Some ((year s, month s, 1), (year s, month s, days_in_month (year s) (month s)))"
proof (cases "month s = 12")
  case True
  with assms have "year s < 9999"
    by (simp add: valid_date_def)
  with True have "add_one_month (replace_day1 s) = Some (year s + 1, 1, 1)"
    using days_in_month_pos [of "year s + 1" 1]
    by (simp add: add_one_month_def replace_day1_def date_parts Let_def)
  moreover have "minus_one_day (year s + 1, 1, 1) = Some (year s, 12, 31)"
    using assms(1) by (simp add: minus_one_day_def date_parts valid_date_def)
  moreover have "days_in_month (year s) 12 = 31"
    by (simp add: days_in_month_def)
  ultimately show ?thesis
    using True by (simp add: month_range_def replace_day1_def)
next
  case False
  with assms(1) have m: "1 \<le> month s" "month s < 12"
    by (simp_all add: valid_date_def)
  then have "add_one_month (replace_day1 s) = Some (year s, month s + 1, 1)"
    using assms(1) days_in_month_pos [of "year s" "month s + 1"]
    by (simp add: add_one_month_def replace_day1_def date_parts Let_def valid_date_def)
  moreover have "minus_one_day (year s, month s + 1, 1)
                   = Some (year s, month s, days_in_month (year s) (month s))"
    using m by (simp add: minus_one_day_def date_parts)
  ultimately show ?thesis
    by (simp add: month_range_def replace_day1_def)
qed

lemma between_month_bounds:
  assumes "valid_date r"
  shows "((y, m, 1) \<le> r \<and> r \<le> (y, m, days_in_month y m)) \<longleftrightarrow> (year r = y \<and> month r = m)"
proof -
  obtain ry rm rd where r: "r = (ry, rm, rd)"
    by (cases r) auto
  from assms have "1 \<le> rd" "rd \<le> days_in_month ry rm"
    by (simp_all add: r valid_date_def date_parts)
  then show ?thesis
    by (auto simp: r date_parts)
qed

lemma month_bounds_valid:
  assumes "valid_date s"
  shows "valid_date (year s, month s, 1)"
    and "valid_date (year s, month s, days_in_month (year s) (month s))"
  using assms days_in_month_pos [of "year s" "month s"]
  by (simp_all add: valid_date_def date_parts)

text \<open>
  C6. For a selected date \<open>s\<close> (any date of Python's \<open>date\<close> type except those of
  December 9999, where adding a month leaves the type), \<open>month_start\<close> is the first
  and \<open>month_end\<close> the last day of the month of \<open>s\<close>; a date lies between them
  exactly when it has the year and the month of \<open>s\<close>; and the range scan returns, in
  date order, exactly the rows of that month and year.
\<close>

theorem monthly_range_scan_same_month:
  assumes "valid_date s" and "\<not> (year s = 9999 \<and> month s = 12)"
    and "\<forall>r\<in>set (expenses d). valid_date (date r)"
  shows "month_range s =
           Some ((year s, month s, 1), (year s, month s, days_in_month (year s) (month s)))
    \<and> valid_date (year s, month s, 1)
    \<and> valid_date (year s, month s, days_in_month (year s) (month s))
    \<and> (\<forall>r. valid_date r \<longrightarrow>
          (((year s, month s, 1) \<le> r \<and> r \<le> (year s, month s, days_in_month (year s) (month s)))
             \<longleftrightarrow> (year r = year s \<and> month r = month s)))
    \<and> df_month s d =
          Some (select_between (year s, month s, 1)
                  (year s, month s, days_in_month (year s) (month s)) d)
    \<and> df_month s d =
          Some (sort_key date
                  (filter (\<lambda>r. year (date r) = year s \<and> month (date r) = month s) (expenses d)))"
proof -
  let ?lo = "(year s, month s, 1)"
  let ?hi = "(year s, month s, days_in_month (year s) (month s))"
  have range: "month_range s = Some (?lo, ?hi)"
    using assms(1,2) by (rule month_range_value)
  have scan: "df_month s d = Some (select_between ?lo ?hi d)"
    by (simp add: df_month_def range)
  have "filter (\<lambda>r. ?lo \<le> date r \<and> date r \<le> ?hi) (expenses d)
      = filter (\<lambda>r. year (date r) = year s \<and> month (date r) = month s) (expenses d)"
    using assms(3) by (intro filter_cong refl between_month_bounds) blast
  then have same: "select_between ?lo ?hi d
      = sort_key date
          (filter (\<lambda>r. year (date r) = year s \<and> month (date r) = month s) (expenses d))"
    by (simp only: select_between_def)
  from range scan same month_bounds_valid [OF assms(1)] between_month_bounds
  show ?thesis
    by simp
qed

theorem monthly_range_scan_same_month_witness:
  "valid_date (2024, 2, 15)
   \<and> month_range (2024, 2, 15) = Some ((2024, 2, 1), (2024, 2, 29))
   \<and> df_month (2024, 2, 15)
        \<lparr>expenses =
           [\<lparr>id_col = 1, date = (2024, 3, 1), meal = ''Lunch'', amount = 80\<rparr>,
            \<lparr>id_col = 2, date = (2024, 2, 29), meal = ''Dinner'', amount = 60\<rparr>,
            \<lparr>id_col = 3, date = (2024, 1, 31), meal = ''Other'', amount = 20\<rparr>,
            \<lparr>id_col = 4, date = (2024, 2, 1), meal = ''Breakfast'', amount = 50\<rparr>],
         seq = 4\<rparr>
       = Some [\<lparr>id_col = 4, date = (2024, 2, 1), meal = ''Breakfast'', amount = 50\<rparr>,
               \<lparr>id_col = 2, date = (2024, 2, 29), meal = ''Dinner'', amount = 60\<rparr>]"
  using monthly_range_scan_same_month [of "(2024, 2, 15)"
      "\<lparr>expenses =
           [\<lparr>id_col = 1, date = (2024, 3, 1), meal = ''Lunch'', amount = 80\<rparr>,
            \<lparr>id_col = 2, date = (2024, 2, 29), meal = ''Dinner'', amount = 60\<rparr>,
            \<lparr>id_col = 3, date = (2024, 1, 31), meal = ''Other'', amount = 20\<rparr>,
            \<lparr>id_col = 4, date = (2024, 2, 1), meal = ''Breakfast'', amount = 50\<rparr>],
         seq = 4\<rparr>"]
  by (simp add: valid_date_def date_parts days_in_month_def is_leap_def select_between_def)

section \<open>The write operations of the Daily Entry page\<close>

lemma expenses_sql_delete [simp]:
  "expenses (sql_delete cond d) = filter (\<lambda>r. \<not> cond r) (expenses d)"
  by (simp add: sql_delete_def)

lemma seq_sql_delete [simp]: "seq (sql_delete cond d) = seq d"
  by (simp add: sql_delete_def)

lemma expenses_sql_insert [simp]:
  "expenses (sql_insert dt m a d)
     = expenses d @ [\<lparr>id_col = next_id d, date = dt, meal = m, amount = a\<rparr>]"
  by (simp add: sql_insert_def)

lemma old_names_current:
  "m \<in> {''Breakfast'', ''Lunch'', ''Dinner'', ''Other''} \<Longrightarrow> map_of old_names m = None"
  by (auto simp: old_names_def)

lemma old_names_range:
  "map_of old_names l = Some m \<Longrightarrow>
     (l = ''Morning'' \<and> m = ''Breakfast'') \<or> (l = ''Afternoon'' \<and> m = ''Lunch'')
       \<or> (l = ''Evening'' \<and> m = ''Dinner'')"
  by (auto simp: old_names_def split: if_splits)

text \<open>The name under which \<open>save_entry\<close> and \<open>delete_entry\<close> delete is the same.\<close>

lemma rename_loop_old_names:
  "(if m \<in> set (map snd old_names_save) then rename_loop old_names_save m else m)
     = (case map_of old_names m of Some new_name \<Rightarrow> new_name | None \<Rightarrow> m)"
  by (auto simp: old_names_save_def old_names_def)

lemma save_entry_as_delete_insert:
  "save_entry sd m a desc d =
     (if 0 < a then
        sql_insert sd
          (full_meal (case map_of old_names m of Some new_name \<Rightarrow> new_name | None \<Rightarrow> m) desc)
          a (delete_entry sd m d)
      else delete_entry sd m d)"
proof (cases "m = ''Other''")
  case True
  then show ?thesis
    by (simp add: save_entry_def delete_entry_def old_names_def)
next
  case False
  then show ?thesis
    unfolding save_entry_def delete_entry_def Let_def
    by (simp only: rename_loop_old_names if_False)
qed

lemma delete_entry_current:
  assumes "m \<in> {''Breakfast'', ''Lunch'', ''Dinner'', ''Other''}"
  shows "expenses (delete_entry sd m d)
     = filter (\<lambda>r. \<not> (date r = sd \<and> (if m = ''Other'' then other_cond (meal r) else meal r = m)))
         (expenses d)"
  using old_names_current [OF assms]
  by (simp add: delete_entry_def)

lemma seq_delete_entry: "seq (delete_entry sd m d) = seq d"
  by (simp add: delete_entry_def Let_def)

lemma full_meal_cases:
  "full_meal m desc = m \<or> (m = ''Other'' \<and> desc \<noteq> [] \<and> full_meal m desc = ''Other: '' @ desc)"
  by (simp add: full_meal_def)

lemma normalised_name_not_legacy:
  "(case map_of old_names m of Some new_name \<Rightarrow> new_name | None \<Rightarrow> m)
     \<notin> {''Morning'', ''Afternoon'', ''Evening''}"
  by (auto simp: old_names_def)

lemma other_note_not_legacy:
  "''Other: '' @ desc \<notin> {''Morning'', ''Afternoon'', ''Evening''}"
  by simp

lemma full_meal_not_legacy:
  assumes "n \<notin> {''Morning'', ''Afternoon'', ''Evening''}"
  shows "full_meal n desc \<notin> {''Morning'', ''Afternoon'', ''Evening''}"
proof (cases "full_meal n desc = n")
  case True
  show ?thesis
    unfolding True by (rule assms)
next
  case False
  with full_meal_cases [of n desc] have "full_meal n desc = ''Other: '' @ desc"
    by blast
  then show ?thesis
    by (simp only: other_note_not_legacy not_False_eq_True)
qed

lemma strip_empty_parse: "strip inp = [] \<Longrightarrow> parse_amount pyfloat inp = 0"
  by (simp add: parse_amount_def)

lemma unparsable_parse: "pyfloat inp = None \<Longrightarrow> parse_amount pyfloat inp = 0"
  by (simp add: parse_amount_def)

text \<open>
  C8. Saving an amount that is not positive does what deleting does and inserts nothing:
  for a category of the form the rows of the selected date under the category's current
  label (for Other: the rows the Other condition accepts) go and every other row stays.
  An empty or unparsable input is read as the amount 0, so it is such a save. Whatever
  the amount, a row that \<open>save_entry\<close> appends has a positive amount.
\<close>

theorem save_entry_nonpositive_is_delete:
  "(a \<le> 0 \<longrightarrow>
      save_entry sd m a desc d = delete_entry sd m d
      \<and> seq (save_entry sd m a desc d) = seq d
      \<and> (m \<in> {''Breakfast'', ''Lunch'', ''Dinner'', ''Other''} \<longrightarrow>
           expenses (save_entry sd m a desc d)
             = filter (\<lambda>r. \<not> (date r = sd \<and>
                                (if m = ''Other'' then other_cond (meal r) else meal r = m)))
                 (expenses d)))
   \<and> (strip inp = [] \<or> pyfloat inp = None \<longrightarrow> parse_amount pyfloat inp = 0)
   \<and> (\<exists>new. expenses (save_entry sd m a desc d) = expenses (delete_entry sd m d) @ new
          \<and> (\<forall>r\<in>set new. 0 < amount r))"
proof -
  have del: "a \<le> 0 \<longrightarrow> save_entry sd m a desc d = delete_entry sd m d"
    by (simp add: save_entry_as_delete_insert)
  have parse: "strip inp = [] \<or> pyfloat inp = None \<longrightarrow> parse_amount pyfloat inp = 0"
    using strip_empty_parse unparsable_parse by blast
  have new: "\<exists>new. expenses (save_entry sd m a desc d) = expenses (delete_entry sd m d) @ new
          \<and> (\<forall>r\<in>set new. 0 < amount r)"
  proof (cases "0 < a")
    case True
    then show ?thesis
      by (simp add: save_entry_as_delete_insert)
  next
    case False
    then have "expenses (save_entry sd m a desc d) = expenses (delete_entry sd m d) @ []"
      by (simp add: save_entry_as_delete_insert)
    then show ?thesis
      by (intro exI [of _ "[]"]) simp
  qed
  from del parse new show ?thesis
    by (simp add: seq_delete_entry delete_entry_current)
qed

theorem save_entry_nonpositive_is_delete_witness:
  "strip ''  '' = []
   \<and> parse_amount (\<lambda>s. None) ''  '' \<le> 0
   \<and> save_entry (2025, 9, 1) ''Breakfast'' (parse_amount (\<lambda>s. None) ''  '') []
        \<lparr>expenses =
           [\<lparr>id_col = 1, date = (2025, 9, 1), meal = ''Breakfast'', amount = 50\<rparr>,
            \<lparr>id_col = 2, date = (2025, 9, 1), meal = ''Lunch'', amount = 80\<rparr>,
            \<lparr>id_col = 3, date = (2025, 9, 2), meal = ''Breakfast'', amount = 40\<rparr>],
         seq = 3\<rparr>
      = \<lparr>expenses =
           [\<lparr>id_col = 2, date = (2025, 9, 1), meal = ''Lunch'', amount = 80\<rparr>,
            \<lparr>id_col = 3, date = (2025, 9, 2), meal = ''Breakfast'', amount = 40\<rparr>],
         seq = 3\<rparr>"
proof -
  let ?d = "\<lparr>expenses =
           [\<lparr>id_col = 1, date = (2025, 9, 1), meal = ''Breakfast'', amount = 50\<rparr>,
            \<lparr>id_col = 2, date = (2025, 9, 1), meal = ''Lunch'', amount = 80\<rparr>,
            \<lparr>id_col = 3, date = (2025, 9, 2), meal = ''Breakfast'', amount = 40\<rparr>],
         seq = 3\<rparr>"
  have s: "strip ''  '' = []"
    by (simp add: strip_def is_space_def)
  have p: "parse_amount (\<lambda>s. None) ''  '' = 0"
    using save_entry_nonpositive_is_delete [of 0 "(2025, 9, 1)" "''Breakfast''" "[]" ?d "''  ''" "\<lambda>s. None"]
    by simp
  have "save_entry (2025, 9, 1) ''Breakfast'' 0 [] ?d = delete_entry (2025, 9, 1) ''Breakfast'' ?d"
    using save_entry_nonpositive_is_delete [of 0 "(2025, 9, 1)" "''Breakfast''" "[]" ?d "''  ''" "\<lambda>s. None"]
    by simp
  also have "\<dots> = \<lparr>expenses =
           [\<lparr>id_col = 2, date = (2025, 9, 1), meal = ''Lunch'', amount = 80\<rparr>,
            \<lparr>id_col = 3, date = (2025, 9, 2), meal = ''Breakfast'', amount = 40\<rparr>],
         seq = 3\<rparr>"
    by (simp add: delete_entry_def old_names_def sql_delete_def)
  finally show ?thesis
    using s p by simp
qed

text \<open>
  C9. A row that \<open>save_entry\<close> appends never carries one of the old labels Morning,
  Afternoon, Evening, whatever name the function is called with; called with one of the
  four categories of the form and a positive amount it appends exactly one row, labelled
  Breakfast, Lunch, Dinner, Other, or \<open>Other: desc\<close> for a non-empty note.
\<close>

theorem save_entry_writes_current_labels:
  "(0 < a \<and> m \<in> {''Breakfast'', ''Lunch'', ''Dinner'', ''Other''} \<longrightarrow>
      expenses (save_entry sd m a desc d)
        = expenses (delete_entry sd m d)
            @ [\<lparr>id_col = next_id (delete_entry sd m d), date = sd,
                meal = full_meal m desc, amount = a\<rparr>]
      \<and> (full_meal m desc \<in> {''Breakfast'', ''Lunch'', ''Dinner'', ''Other''}
           \<or> (desc \<noteq> [] \<and> full_meal m desc = ''Other: '' @ desc)))
   \<and> (\<exists>new. expenses (save_entry sd m a desc d) = expenses (delete_entry sd m d) @ new
          \<and> length new \<le> 1
          \<and> (\<forall>r\<in>set new. meal r \<notin> {''Morning'', ''Afternoon'', ''Evening''}))"
proof -
  let ?n = "case map_of old_names m of Some new_name \<Rightarrow> new_name | None \<Rightarrow> m"
  let ?row = "\<lparr>id_col = next_id (delete_entry sd m d), date = sd,
                meal = full_meal ?n desc, amount = a\<rparr>"
  have ins: "0 < a \<Longrightarrow>
      expenses (save_entry sd m a desc d) = expenses (delete_entry sd m d) @ [?row]"
    by (simp add: save_entry_as_delete_insert)
  have first: "0 < a \<and> m \<in> {''Breakfast'', ''Lunch'', ''Dinner'', ''Other''} \<longrightarrow>
      expenses (save_entry sd m a desc d)
        = expenses (delete_entry sd m d)
            @ [\<lparr>id_col = next_id (delete_entry sd m d), date = sd,
                meal = full_meal m desc, amount = a\<rparr>]
      \<and> (full_meal m desc \<in> {''Breakfast'', ''Lunch'', ''Dinner'', ''Other''}
           \<or> (desc \<noteq> [] \<and> full_meal m desc = ''Other: '' @ desc))"
  proof (intro impI, elim conjE)
    assume a: "0 < a" and m: "m \<in> {''Breakfast'', ''Lunch'', ''Dinner'', ''Other''}"
    from m have "?n = m"
      by (simp only: old_names_current option.case)
    with ins [OF a] have "expenses (save_entry sd m a desc d)
        = expenses (delete_entry sd m d)
            @ [\<lparr>id_col = next_id (delete_entry sd m d), date = sd,
                meal = full_meal m desc, amount = a\<rparr>]"
      by simp
    moreover from full_meal_cases [of m desc] m
    have "full_meal m desc \<in> {''Breakfast'', ''Lunch'', ''Dinner'', ''Other''}
           \<or> (desc \<noteq> [] \<and> full_meal m desc = ''Other: '' @ desc)"
      by metis
    ultimately show "expenses (save_entry sd m a desc d)
        = expenses (delete_entry sd m d)
            @ [\<lparr>id_col = next_id (delete_entry sd m d), date = sd,
                meal = full_meal m desc, amount = a\<rparr>]
      \<and> (full_meal m desc \<in> {''Breakfast'', ''Lunch'', ''Dinner'', ''Other''}
           \<or> (desc \<noteq> [] \<and> full_meal m desc = ''Other: '' @ desc))"
      by (rule conjI)
  qed
  have label: "full_meal ?n desc \<notin> {''Morning'', ''Afternoon'', ''Evening''}"
    by (rule full_meal_not_legacy) (rule normalised_name_not_legacy)
  have second: "\<exists>new. expenses (save_entry sd m a desc d) = expenses (delete_entry sd m d) @ new
          \<and> length new \<le> 1
          \<and> (\<forall>r\<in>set new. meal r \<notin> {''Morning'', ''Afternoon'', ''Evening''})"
  proof (cases "0 < a")
    case True
    have "\<forall>r\<in>set [?row]. meal r \<notin> {''Morning'', ''Afternoon'', ''Evening''}"
      using label by simp
    with ins [OF True] show ?thesis
      by (intro exI [of _ "[?row]"]) simp
  next
    case False
    then have "expenses (save_entry sd m a desc d) = expenses (delete_entry sd m d) @ []"
      by (simp add: save_entry_as_delete_insert)
    then show ?thesis
      by (intro exI [of _ "[]"]) simp
  qed
  from first second show ?thesis
    by (rule conjI)
qed

theorem save_entry_writes_current_labels_witness:
  "(0 :: real) < 20
   \<and> ''Other'' \<in> {''Breakfast'', ''Lunch'', ''Dinner'', ''Other''}
   \<and> expenses (save_entry (2025, 9, 1) ''Other'' 20 ''snack''
        \<lparr>expenses =
           [\<lparr>id_col = 1, date = (2025, 9, 1), meal = ''Other: tea'', amount = 10\<rparr>,
            \<lparr>id_col = 2, date = (2025, 9, 1), meal = ''Evening'', amount = 60\<rparr>],
         seq = 5\<rparr>)
      = [\<lparr>id_col = 2, date = (2025, 9, 1), meal = ''Evening'', amount = 60\<rparr>,
         \<lparr>id_col = 6, date = (2025, 9, 1), meal = ''Other: snack'', amount = 20\<rparr>]"
proof -
  let ?d = "\<lparr>expenses =
           [\<lparr>id_col = 1, date = (2025, 9, 1), meal = ''Other: tea'', amount = 10\<rparr>,
            \<lparr>id_col = 2, date = (2025, 9, 1), meal = ''Evening'', amount = 60\<rparr>],
         seq = 5\<rparr>"
  have a: "(0 :: real) < 20"
    by simp
  have m: "''Other'' \<in> {''Breakfast'', ''Lunch'', ''Dinner'', ''Other''}"
    by simp
  have tea: "other_cond ''Other: tea''" and evening: "\<not> other_cond ''Evening''"
    by code_simp+
  have del: "delete_entry (2025, 9, 1) ''Other'' ?d
      = \<lparr>expenses = [\<lparr>id_col = 2, date = (2025, 9, 1), meal = ''Evening'', amount = 60\<rparr>],
         seq = 5\<rparr>"
    by (simp add: delete_entry_def sql_delete_def tea evening)
  have label: "full_meal ''Other'' ''snack'' = ''Other: snack''"
    by (simp add: full_meal_def)
  from save_entry_writes_current_labels [of 20 "''Other''" "(2025, 9, 1)" "''snack''" ?d] a m
  have "expenses (save_entry (2025, 9, 1) ''Other'' 20 ''snack'' ?d)
        = expenses (delete_entry (2025, 9, 1) ''Other'' ?d)
            @ [\<lparr>id_col = next_id (delete_entry (2025, 9, 1) ''Other'' ?d), date = (2025, 9, 1),
                meal = full_meal ''Other'' ''snack'', amount = 20\<rparr>]"
    by blast
  then have "expenses (save_entry (2025, 9, 1) ''Other'' 20 ''snack'' ?d)
      = [\<lparr>id_col = 2, date = (2025, 9, 1), meal = ''Evening'', amount = 60\<rparr>,
         \<lparr>id_col = 6, date = (2025, 9, 1), meal = ''Other: snack'', amount = 20\<rparr>]"
    by (simp only: del label) (simp add: next_id_def)
  with a m show ?thesis
    by blast
qed

section \<open>What the delete operations leave alone\<close>

lemma filter_after_removal:
  assumes "\<And>x. Q x \<Longrightarrow> \<not> C x"
  shows "filter Q (filter (\<lambda>x. \<not> C x) xs) = filter Q xs"
  using assms by (induction xs) auto

lemma not_other_cond_names:
  "\<not> other_cond ''Breakfast''" "\<not> other_cond ''Lunch''" "\<not> other_cond ''Dinner''"
  "\<not> other_cond ''Morning''" "\<not> other_cond ''Afternoon''" "\<not> other_cond ''Evening''"
  by code_simp+

lemma names_distinct:
  "''Morning'' \<noteq> ''Breakfast''" "''Morning'' \<noteq> ''Lunch''" "''Morning'' \<noteq> ''Dinner''"
  "''Afternoon'' \<noteq> ''Breakfast''" "''Afternoon'' \<noteq> ''Lunch''" "''Afternoon'' \<noteq> ''Dinner''"
  "''Evening'' \<noteq> ''Breakfast''" "''Evening'' \<noteq> ''Lunch''" "''Evening'' \<noteq> ''Dinner''"
  "''Other'' \<noteq> ''Breakfast''" "''Other'' \<noteq> ''Lunch''" "''Other'' \<noteq> ''Dinner''"
  by simp_all

text \<open>A row that \<open>delete_entry\<close> removes for a category does not belong to another one.\<close>

lemma removed_not_in_other_category:
  assumes m: "m \<in> {''Breakfast'', ''Lunch'', ''Dinner'', ''Other''}"
    and m': "m' \<in> {''Breakfast'', ''Lunch'', ''Dinner'', ''Other''}"
    and diff: "m' \<noteq> m"
    and cat: "in_category m' l"
  shows "\<not> (if m = ''Other'' then other_cond l else l = m)"
proof -
  define B L D O' Mo Af Ev where names:
    "B = ''Breakfast''" "L = ''Lunch''" "D = ''Dinner''" "O' = ''Other''"
    "Mo = ''Morning''" "Af = ''Afternoon''" "Ev = ''Evening''"
  have noc: "\<not> other_cond B" "\<not> other_cond L" "\<not> other_cond D"
    "\<not> other_cond Mo" "\<not> other_cond Af" "\<not> other_cond Ev"
    unfolding names by (rule not_other_cond_names)+
  have dist: "Mo \<noteq> B" "Mo \<noteq> L" "Mo \<noteq> D" "Af \<noteq> B" "Af \<noteq> L" "Af \<noteq> D"
    "Ev \<noteq> B" "Ev \<noteq> L" "Ev \<noteq> D" "O' \<noteq> B" "O' \<noteq> L" "O' \<noteq> D"
    unfolding names by (rule names_distinct)+
  have range: "(l = Mo \<and> m' = B) \<or> (l = Af \<and> m' = L) \<or> (l = Ev \<and> m' = D)"
    if "map_of old_names l = Some m'"
    unfolding names using that by (rule old_names_range)
  have m4: "m \<in> {B, L, D, O'}" and m4': "m' \<in> {B, L, D, O'}"
    unfolding names by (rule m, rule m')
  have "l = m' \<or> map_of old_names l = Some m' \<or> (m' = O' \<and> other_cond l)"
    using cat unfolding in_category_def names .
  with range have c3: "l = m' \<or> (l = Mo \<and> m' = B) \<or> (l = Af \<and> m' = L) \<or> (l = Ev \<and> m' = D)
      \<or> (m' = O' \<and> other_cond l)"
    by blast
  have "\<not> (if m = O' then other_cond l else l = m)"
    using m4 m4' diff c3 noc dist by (auto split: if_splits)
  then show ?thesis
    unfolding names .
qed

lemma delete_entry_keeps_other_dates:
  "filter (\<lambda>r. date r \<noteq> sd) (expenses (delete_entry sd m d))
     = filter (\<lambda>r. date r \<noteq> sd) (expenses d)"
proof (cases "m = ''Other''")
  case True
  then show ?thesis
    by (simp only: delete_entry_def simp_thms if_True expenses_sql_delete)
      (rule filter_after_removal, simp)
next
  case False
  then show ?thesis
    by (simp only: delete_entry_def Let_def if_False expenses_sql_delete)
      (rule filter_after_removal, simp)
qed

lemma delete_entry_is_filter:
  "\<exists>keep. expenses (delete_entry sd m d) = filter keep (expenses d)"
proof (cases "m = ''Other''")
  case True
  then have "expenses (delete_entry sd m d)
      = filter (\<lambda>r. \<not> (date r = sd \<and> other_cond (meal r))) (expenses d)"
    by (simp only: delete_entry_def simp_thms if_True expenses_sql_delete)
  then show ?thesis
    by blast
next
  case False
  then have "expenses (delete_entry sd m d)
      = filter (\<lambda>r. \<not> (date r = sd \<and> meal r =
                  (case map_of old_names m of Some new_name \<Rightarrow> new_name | None \<Rightarrow> m)))
          (expenses d)"
    by (simp only: delete_entry_def Let_def if_False expenses_sql_delete)
  then show ?thesis
    by blast
qed

text \<open>
  C10. \<open>Clear All Today's Entries\<close> removes exactly the rows of the selected date and
  leaves the rows of every other date as they are, in place. \<open>delete_entry\<close> only
  removes rows (what remains is a selection of the old table), leaves the rows of every
  other date as they are, and, called for one of the four categories, leaves the rows of
  the selected date that belong to another of the four categories as they are.
\<close>

theorem delete_operations_frame:
  "expenses (clear_all_today sd d) = filter (\<lambda>r. date r \<noteq> sd) (expenses d)
   \<and> (\<exists>keep. expenses (delete_entry sd m d) = filter keep (expenses d))
   \<and> filter (\<lambda>r. date r \<noteq> sd) (expenses (delete_entry sd m d))
        = filter (\<lambda>r. date r \<noteq> sd) (expenses d)
   \<and> (m \<in> {''Breakfast'', ''Lunch'', ''Dinner'', ''Other''}
        \<and> m' \<in> {''Breakfast'', ''Lunch'', ''Dinner'', ''Other''} \<and> m' \<noteq> m \<longrightarrow>
          filter (\<lambda>r. date r = sd \<and> in_category m' (meal r)) (expenses (delete_entry sd m d))
            = filter (\<lambda>r. date r = sd \<and> in_category m' (meal r)) (expenses d))"
proof -
  have clear: "expenses (clear_all_today sd d) = filter (\<lambda>r. date r \<noteq> sd) (expenses d)"
    by (simp add: clear_all_today_def)
  have cat: "filter (\<lambda>r. date r = sd \<and> in_category m' (meal r)) (expenses (delete_entry sd m d))
            = filter (\<lambda>r. date r = sd \<and> in_category m' (meal r)) (expenses d)"
    if "m \<in> {''Breakfast'', ''Lunch'', ''Dinner'', ''Other''}"
      and "m' \<in> {''Breakfast'', ''Lunch'', ''Dinner'', ''Other''}" and "m' \<noteq> m"
  proof -
    have kept: "\<not> (date r = sd \<and> (if m = ''Other'' then other_cond (meal r) else meal r = m))"
      if "date r = sd \<and> in_category m' (meal r)" for r
    proof -
      from that have "in_category m' (meal r)"
        by (rule conjunct2)
      with \<open>m \<in> _\<close> \<open>m' \<in> _\<close> \<open>m' \<noteq> m\<close>
      have "\<not> (if m = ''Other'' then other_cond (meal r) else meal r = m)"
        by (rule removed_not_in_other_category)
      then show ?thesis
        by (rule contrapos_nn) (rule conjunct2)
    qed
    show ?thesis
      unfolding delete_entry_current [OF that(1)]
      by (rule filter_after_removal) (rule kept)
  qed
  show ?thesis
  proof (intro conjI impI)
    show "expenses (clear_all_today sd d) = filter (\<lambda>r. date r \<noteq> sd) (expenses d)"
      by (rule clear)
    show "\<exists>keep. expenses (delete_entry sd m d) = filter keep (expenses d)"
      by (rule delete_entry_is_filter)
    show "filter (\<lambda>r. date r \<noteq> sd) (expenses (delete_entry sd m d))
        = filter (\<lambda>r. date r \<noteq> sd) (expenses d)"
      by (rule delete_entry_keeps_other_dates)
    assume "m \<in> {''Breakfast'', ''Lunch'', ''Dinner'', ''Other''}
        \<and> m' \<in> {''Breakfast'', ''Lunch'', ''Dinner'', ''Other''} \<and> m' \<noteq> m"
    then show "filter (\<lambda>r. date r = sd \<and> in_category m' (meal r)) (expenses (delete_entry sd m d))
            = filter (\<lambda>r. date r = sd \<and> in_category m' (meal r)) (expenses d)"
      by (elim conjE) (rule cat, assumption+)
  qed
qed

theorem delete_operations_frame_witness:
  "''Other'' \<in> {''Breakfast'', ''Lunch'', ''Dinner'', ''Other''}
   \<and> ''Dinner'' \<in> {''Breakfast'', ''Lunch'', ''Dinner'', ''Other''}
   \<and> ''Dinner'' \<noteq> ''Other''
   \<and> filter (\<lambda>r. date r = (2025, 9, 1) \<and> in_category ''Dinner'' (meal r))
        (expenses (delete_entry (2025, 9, 1) ''Other''
           \<lparr>expenses =
              [\<lparr>id_col = 1, date = (2025, 9, 1), meal = ''Other: tea'', amount = 10\<rparr>,
               \<lparr>id_col = 2, date = (2025, 9, 1), meal = ''Evening'', amount = 60\<rparr>,
               \<lparr>id_col = 3, date = (2025, 9, 2), meal = ''Other'', amount = 5\<rparr>],
            seq = 3\<rparr>))
      = [\<lparr>id_col = 2, date = (2025, 9, 1), meal = ''Evening'', amount = 60\<rparr>]"
proof -
  let ?d = "\<lparr>expenses =
              [\<lparr>id_col = 1, date = (2025, 9, 1), meal = ''Other: tea'', amount = 10\<rparr>,
               \<lparr>id_col = 2, date = (2025, 9, 1), meal = ''Evening'', amount = 60\<rparr>,
               \<lparr>id_col = 3, date = (2025, 9, 2), meal = ''Other'', amount = 5\<rparr>],
            seq = 3\<rparr>"
  have h1: "''Other'' \<in> {''Breakfast'', ''Lunch'', ''Dinner'', ''Other''}"
    by simp
  have h2: "''Dinner'' \<in> {''Breakfast'', ''Lunch'', ''Dinner'', ''Other''}"
    by simp
  have h3: "''Dinner'' \<noteq> ''Other''"
    by simp
  have c: "\<not> in_category ''Dinner'' ''Other: tea''" "in_category ''Dinner'' ''Evening''"
    by code_simp+
  have "filter (\<lambda>r. date r = (2025, 9, 1) \<and> in_category ''Dinner'' (meal r))
          (expenses (delete_entry (2025, 9, 1) ''Other'' ?d))
      = filter (\<lambda>r. date r = (2025, 9, 1) \<and> in_category ''Dinner'' (meal r)) (expenses ?d)"
    by (rule delete_operations_frame [of "(2025, 9, 1)" ?d "''Other''" "''Dinner''",
          THEN conjunct2, THEN conjunct2, THEN conjunct2, THEN mp,
          OF conjI [OF h1 conjI [OF h2 h3]]])
  also have "\<dots> = [\<lparr>id_col = 2, date = (2025, 9, 1), meal = ''Evening'', amount = 60\<rparr>]"
    by (simp add: c)
  finally have res: "filter (\<lambda>r. date r = (2025, 9, 1) \<and> in_category ''Dinner'' (meal r))
          (expenses (delete_entry (2025, 9, 1) ''Other'' ?d))
      = [\<lparr>id_col = 2, date = (2025, 9, 1), meal = ''Evening'', amount = 60\<rparr>]" .
  show ?thesis
    by (rule conjI [OF h1 conjI [OF h2 conjI [OF h3 res]]])
qed

section \<open>Rows under the old labels\<close>


lemma in_three_in_four: "x \<in> {a, b, c} \<Longrightarrow> x \<in> {a, b, c, e}"
  by blast

lemma in_three_not_fourth: "x \<in> {a, b, c} \<Longrightarrow> e \<noteq> a \<Longrightarrow> e \<noteq> b \<Longrightarrow> e \<noteq> c \<Longrightarrow> x \<noteq> e"
  by blast

lemma get_existing_amount_current:
  assumes "m \<in> {''Breakfast'', ''Lunch'', ''Dinner''}"
  shows "get_existing_amount sd m d
           = first_amount (map amount (filter (\<lambda>r. date r = sd \<and> meal r = m) (expenses d)))"
proof -
  from assms have "m \<noteq> ''Other''"
    by (rule in_three_not_fourth) simp_all
  moreover from assms have "m \<in> {''Breakfast'', ''Lunch'', ''Dinner'', ''Other''}"
    by (rule in_three_in_four)
  then have "map_of old_names m = None"
    by (rule old_names_current)
  ultimately show ?thesis
    by (simp add: get_existing_amount_def select_amount_def)
qed

lemma get_existing_amount_Other:
  "get_existing_amount sd ''Other'' d
     = first_amount (map amount (take 1 (rev (sort_key id_col
         (filter (\<lambda>r. date r = sd \<and> other_cond (meal r)) (expenses d))))))"
  by (simp add: get_existing_amount_def select_amount_latest_def)

text \<open>\<^verbatim>\<open>ORDER BY id DESC LIMIT 1\<close> returns a row of the largest id among those selected.\<close>

lemma latest_row:
  assumes "filter c xs \<noteq> []"
  shows "\<exists>r. take 1 (rev (sort_key id_col (filter c xs))) = [r] \<and> r \<in> set xs \<and> c r
             \<and> (\<forall>x\<in>set xs. c x \<longrightarrow> id_col x \<le> id_col r)"
proof -
  let ?ys = "sort_key id_col (filter c xs)"
  from assms have "?ys \<noteq> []"
    by (metis set_sort set_empty)
  then obtain b l where bl: "?ys = b @ [l]"
    by (cases ?ys rule: rev_cases) auto
  then have one: "take 1 (rev ?ys) = [l]"
    by simp
  have "set ?ys = set (filter c xs)"
    by (rule set_sort)
  then have sets: "insert l (set b) = {x \<in> set xs. c x}"
    by (simp add: bl)
  then have mem: "l \<in> set xs" "c l"
    by auto
  have "sorted (map id_col ?ys)"
    by (rule sorted_sort_key)
  then have "\<forall>x\<in>set b. id_col x \<le> id_col l"
    by (simp add: bl sorted_append)
  then have "\<forall>x\<in>insert l (set b). id_col x \<le> id_col l"
    by simp
  then have "\<forall>x\<in>set xs. c x \<longrightarrow> id_col x \<le> id_col l"
    unfolding sets by simp
  with one mem show ?thesis
    by blast
qed

text \<open>
  What \<open>get_existing_amount\<close> does for Other: the amount of a row of the largest id among
  the rows of the date that the Other condition accepts, and \<open>None\<close> when there is none.
\<close>

lemma get_existing_amount_Other_latest:
  "(filter (\<lambda>r. date r = sd \<and> other_cond (meal r)) (expenses d) = []
      \<longrightarrow> get_existing_amount sd ''Other'' d = None)
   \<and> (filter (\<lambda>r. date r = sd \<and> other_cond (meal r)) (expenses d) \<noteq> []
      \<longrightarrow> (\<exists>r\<in>set (expenses d). date r = sd \<and> other_cond (meal r)
             \<and> (\<forall>x\<in>set (expenses d). date x = sd \<and> other_cond (meal x) \<longrightarrow> id_col x \<le> id_col r)
             \<and> get_existing_amount sd ''Other'' d = Some (amount r)))"
proof (intro conjI impI)
  assume "filter (\<lambda>r. date r = sd \<and> other_cond (meal r)) (expenses d) = []"
  then show "get_existing_amount sd ''Other'' d = None"
    by (simp add: get_existing_amount_Other first_amount_def)
next
  assume "filter (\<lambda>r. date r = sd \<and> other_cond (meal r)) (expenses d) \<noteq> []"
  from latest_row [OF this] obtain r where
    r: "take 1 (rev (sort_key id_col
          (filter (\<lambda>r. date r = sd \<and> other_cond (meal r)) (expenses d)))) = [r]"
      "r \<in> set (expenses d)" "date r = sd \<and> other_cond (meal r)"
      "\<forall>x\<in>set (expenses d). date x = sd \<and> other_cond (meal x) \<longrightarrow> id_col x \<le> id_col r"
    by blast
  from r(1) have "get_existing_amount sd ''Other'' d = Some (amount r)"
    by (simp add: get_existing_amount_Other first_amount_def)
  with r(2,3,4) show "\<exists>r\<in>set (expenses d). date r = sd \<and> other_cond (meal r)
             \<and> (\<forall>x\<in>set (expenses d). date x = sd \<and> other_cond (meal x) \<longrightarrow> id_col x \<le> id_col r)
             \<and> get_existing_amount sd ''Other'' d = Some (amount r)"
    by blast
qed


lemma filter_removed_all:
  assumes "\<And>x. x \<in> set xs \<Longrightarrow> Q x \<Longrightarrow> C x"
  shows "filter Q (filter (\<lambda>x. \<not> C x) xs) = []"
  using assms by (induction xs) auto

lemma other_cond_note: "other_cond (''Other: '' @ desc)"
proof -
  have "take 5 (''Other: '' @ desc) = ''Other''"
    by simp
  moreover have "lower ''Other'' = ''other''"
    by code_simp
  ultimately show ?thesis
    by (simp only: other_cond_def like_Other_def simp_thms)
qed

lemma other_cond_Other: "other_cond ''Other''"
  by code_simp

lemma in_category_full_meal:
  assumes "m \<in> {''Breakfast'', ''Lunch'', ''Dinner'', ''Other''}"
  shows "in_category m (full_meal m desc)"
proof (cases "full_meal m desc = m")
  case True
  then show ?thesis
    by (simp only: in_category_def simp_thms)
next
  case False
  with full_meal_cases [of m desc]
  have "m = ''Other''" and "full_meal m desc = ''Other: '' @ desc"
    by blast+
  with other_cond_note [of desc] show ?thesis
    by (simp only: in_category_def simp_thms)
qed

text \<open>
  The upsert that does hold: when no row of the selected date carries the old label of the
  category, then after saving a positive amount for one of the four categories the table
  has exactly one row of that date in that category, the new one.
\<close>

lemma save_entry_upsert_without_old_label:
  assumes m: "m \<in> {''Breakfast'', ''Lunch'', ''Dinner'', ''Other''}" and a: "0 < a"
    and no_old: "\<And>r. r \<in> set (expenses d) \<Longrightarrow> date r = sd \<Longrightarrow> map_of old_names (meal r) \<noteq> Some m"
  shows "filter (\<lambda>r. date r = sd \<and> in_category m (meal r)) (expenses (save_entry sd m a desc d))
     = [\<lparr>id_col = next_id (delete_entry sd m d), date = sd, meal = full_meal m desc, amount = a\<rparr>]"
proof -
  let ?Q = "\<lambda>r. date r = sd \<and> in_category m (meal r)"
  let ?C = "\<lambda>r. date r = sd \<and> (if m = ''Other'' then other_cond (meal r) else meal r = m)"
  let ?new = "\<lparr>id_col = next_id (delete_entry sd m d), date = sd, meal = full_meal m desc, amount = a\<rparr>"
  have norm: "(case map_of old_names m of Some new_name \<Rightarrow> new_name | None \<Rightarrow> m) = m"
    by (simp only: old_names_current [OF m] option.case)
  have saved: "expenses (save_entry sd m a desc d) = expenses (delete_entry sd m d) @ [?new]"
    using a by (simp add: save_entry_as_delete_insert norm)
  have removed: "?C r" if "r \<in> set (expenses d)" and "?Q r" for r
  proof -
    from that(2) have dt: "date r = sd" and cat: "in_category m (meal r)"
      by simp_all
    from no_old [OF that(1) dt] cat
    have c2: "meal r = m \<or> (m = ''Other'' \<and> other_cond (meal r))"
      by (simp only: in_category_def simp_thms)
    show ?thesis
    proof (cases "m = ''Other''")
      case True
      with c2 other_cond_Other have "other_cond (meal r)"
        by metis
      with True dt show ?thesis by simp
    next
      case False
      with c2 have "meal r = m" by blast
      with False dt show ?thesis by simp
    qed
  qed
  have "filter ?Q (expenses (delete_entry sd m d)) = []"
    unfolding delete_entry_current [OF m]
    by (rule filter_removed_all) (rule removed)
  moreover have "filter ?Q [?new] = [?new]"
    using in_category_full_meal [OF m, of desc] by simp
  ultimately show ?thesis
    by (simp only: saved filter_append append_Nil)
qed

text \<open>
  C1. The claim is that after saving a positive amount the table has exactly one row of
  the date in the category, also when a row existed under the old label. With a row
  labelled Morning on the date, saving Breakfast leaves that row and adds a second one:
  the table then has two rows of the date that belong to Breakfast (both are counted
  under Breakfast by \<open>categorize_meal\<close> as well).
\<close>

theorem save_breakfast_leaves_morning_row:
  "expenses (save_entry (2025, 9, 1) ''Breakfast'' 60 []
      \<lparr>expenses = [\<lparr>id_col = 1, date = (2025, 9, 1), meal = ''Morning'', amount = 50\<rparr>],
       seq = 1\<rparr>)
     = [\<lparr>id_col = 1, date = (2025, 9, 1), meal = ''Morning'', amount = 50\<rparr>,
        \<lparr>id_col = 2, date = (2025, 9, 1), meal = ''Breakfast'', amount = 60\<rparr>]
   \<and> in_category ''Breakfast'' ''Morning'' \<and> in_category ''Breakfast'' ''Breakfast''
   \<and> categorize_meal ''Morning'' = ''Breakfast'' \<and> categorize_meal ''Breakfast'' = ''Breakfast''"
proof -
  have "delete_entry (2025, 9, 1) ''Breakfast''
      \<lparr>expenses = [\<lparr>id_col = 1, date = (2025, 9, 1), meal = ''Morning'', amount = 50\<rparr>],
       seq = 1\<rparr>
     = \<lparr>expenses = [\<lparr>id_col = 1, date = (2025, 9, 1), meal = ''Morning'', amount = 50\<rparr>],
       seq = 1\<rparr>"
    by (simp add: delete_entry_def old_names_def sql_delete_def)
  then have "expenses (save_entry (2025, 9, 1) ''Breakfast'' 60 []
      \<lparr>expenses = [\<lparr>id_col = 1, date = (2025, 9, 1), meal = ''Morning'', amount = 50\<rparr>],
       seq = 1\<rparr>)
     = [\<lparr>id_col = 1, date = (2025, 9, 1), meal = ''Morning'', amount = 50\<rparr>,
        \<lparr>id_col = 2, date = (2025, 9, 1), meal = ''Breakfast'', amount = 60\<rparr>]"
    by (simp add: save_entry_as_delete_insert old_names_def full_meal_def next_id_def)
  moreover have "in_category ''Breakfast'' ''Morning''" "in_category ''Breakfast'' ''Breakfast''"
    by code_simp+
  ultimately show ?thesis
    using categorize_meal_legacy(1) categorize_meal_current(1) by (intro conjI)
qed

text \<open>
  A row under an old label stays in the table when its category is deleted: with a row
  labelled Morning on the date, deleting Breakfast leaves the table as it was.
\<close>

lemma delete_breakfast_leaves_morning_row:
  "delete_entry (2025, 9, 1) ''Breakfast''
      \<lparr>expenses = [\<lparr>id_col = 1, date = (2025, 9, 1), meal = ''Morning'', amount = 50\<rparr>],
       seq = 1\<rparr>
     = \<lparr>expenses = [\<lparr>id_col = 1, date = (2025, 9, 1), meal = ''Morning'', amount = 50\<rparr>],
       seq = 1\<rparr>"
  by (simp add: delete_entry_def old_names_def sql_delete_def)



text \<open>
  C7. The claim is that for Breakfast, Lunch and Dinner \<open>get_existing_amount\<close> falls back
  to the amount stored under the old label when there is no row under the current one.
  With only a row labelled Morning on the date, the answer for Breakfast is \<open>None\<close>:
  the dictionary \<open>old_names\<close> is keyed by the old names, so the fallback is taken only
  when the function is called with an old name, and then it looks under the current one.
\<close>

theorem get_breakfast_misses_morning_row:
  "get_existing_amount (2025, 9, 1) ''Breakfast''
      \<lparr>expenses = [\<lparr>id_col = 1, date = (2025, 9, 1), meal = ''Morning'', amount = 50\<rparr>],
       seq = 1\<rparr> = None
   \<and> get_existing_amount (2025, 9, 1) ''Morning''
      \<lparr>expenses = [\<lparr>id_col = 1, date = (2025, 9, 1), meal = ''Breakfast'', amount = 50\<rparr>],
       seq = 1\<rparr> = Some 50"
proof -
  have "get_existing_amount (2025, 9, 1) ''Breakfast''
      \<lparr>expenses = [\<lparr>id_col = 1, date = (2025, 9, 1), meal = ''Morning'', amount = 50\<rparr>],
       seq = 1\<rparr> = None"
    by (simp add: get_existing_amount_def old_names_def select_amount_def first_amount_def)
  moreover have "get_existing_amount (2025, 9, 1) ''Morning''
      \<lparr>expenses = [\<lparr>id_col = 1, date = (2025, 9, 1), meal = ''Breakfast'', amount = 50\<rparr>],
       seq = 1\<rparr> = Some 50"
    by (simp add: get_existing_amount_def old_names_def select_amount_def first_amount_def)
  ultimately show ?thesis
    by (rule conjI)
qed

end
